theory Spec2Isabelle
  imports Main
begin

section \<open>Python lists and the one failure this code can raise\<close>

text \<open>
  The token-classification notebook defines three functions of its own:
  \<open>align_labels_with_tokens\<close>, \<open>compute_metrics\<close> and \<open>postprocess\<close>.
  They work on Python lists of unbounded integers (\<open>int\<close>), on word ids that are
  either \<open>None\<close> or an integer (\<open>int option\<close>), and on two-dimensional integer
  arrays, read row by row (\<open>int list list\<close>). The only operation in them that can
  raise is the subscript \<open>xs[i]\<close> on a Python list.
\<close>

datatype py_error = IndexError

text \<open>
  \<open>xs[i]\<close> on a Python list: a negative subscript counts from the end of the list,
  and a subscript outside \<open>-len(xs) .. len(xs)-1\<close> raises \<open>IndexError\<close>.
\<close>

definition list_getitem :: "'a list \<Rightarrow> int \<Rightarrow> py_error + 'a" where
  "list_getitem xs i =
     (if 0 \<le> i \<and> i < int (length xs) then Inr (xs ! nat i)
      else if i < 0 \<and> - int (length xs) \<le> i then Inr (xs ! nat (int (length xs) + i))
      else Inl IndexError)"

text \<open>
  A list comprehension \<open>[elt(x) for x in xs if keep(x)]\<close> whose element
  expression may raise: elements are produced from left to right and the first
  failure ends the evaluation.
\<close>

fun comprehension :: "('a \<Rightarrow> bool) \<Rightarrow> ('a \<Rightarrow> py_error + 'b) \<Rightarrow> 'a list \<Rightarrow> py_error + 'b list" where
  "comprehension keep elt [] = Inr []"
| "comprehension keep elt (x # xs) =
     (if keep x then
        (case elt x of
           Inl e \<Rightarrow> Inl e
         | Inr y \<Rightarrow>
            (case comprehension keep elt xs of
               Inl e \<Rightarrow> Inl e
             | Inr ys \<Rightarrow> Inr (y # ys)))
      else comprehension keep elt xs)"

section \<open>Aligning word labels with tokens\<close>

text \<open>
  The body of the \<open>for word_id in word_ids\<close> loop. The loop state is the pair
  \<open>(new_labels, current_word)\<close>; the three branches are those of the source, in
  the source's order:
  \<^verbatim>\<open>
        if word_id != current_word:
            current_word = word_id
            label = -100 if word_id is None else labels[word_id]
            new_labels.append(label)
        elif word_id is None:
            new_labels.append(-100)
        else:
            label = labels[word_id]
            if label % 2 == 1:
                label += 1
            new_labels.append(label)
  \<close>
  Python's \<open>%\<close> with a positive modulus and HOL's \<open>mod\<close> on \<open>int\<close> both give
  a result in \<open>{0, 1}\<close>.
\<close>

definition align_body :: "int list \<Rightarrow> int list \<times> int option \<Rightarrow> int option \<Rightarrow> py_error + (int list \<times> int option)" where
  "align_body labels st word_id =
     (case st of (new_labels, current_word) \<Rightarrow>
        if word_id \<noteq> current_word then
          (case (case word_id of None \<Rightarrow> Inr (- 100) | Some w \<Rightarrow> list_getitem labels w) of
             Inl e \<Rightarrow> Inl e
           | Inr label \<Rightarrow> Inr (new_labels @ [label], word_id))
        else
          (case word_id of
             None \<Rightarrow> Inr (new_labels @ [- 100], current_word)
           | Some w \<Rightarrow>
              (case list_getitem labels w of
                 Inl e \<Rightarrow> Inl e
               | Inr label \<Rightarrow>
                  Inr (new_labels @ [if label mod 2 = 1 then label + 1 else label],
                       current_word))))"

fun align_loop :: "int list \<Rightarrow> int list \<times> int option \<Rightarrow> int option list \<Rightarrow> py_error + (int list \<times> int option)" where
  "align_loop labels st [] = Inr st"
| "align_loop labels st (word_id # word_ids) =
     (case align_body labels st word_id of
        Inl e \<Rightarrow> Inl e
      | Inr st' \<Rightarrow> align_loop labels st' word_ids)"

definition align_labels_with_tokens :: "int list \<Rightarrow> int option list \<Rightarrow> py_error + int list" where
  "align_labels_with_tokens labels word_ids =
     (case align_loop labels ([], None) word_ids of
        Inl e \<Rightarrow> Inl e
      | Inr (new_labels, current_word) \<Rightarrow> Inr new_labels)"

section \<open>Post-processing for the metric\<close>

text \<open>
  \<open>label_names\<close> is a global of the notebook, read from the dataset's schema; the
  model takes it as a parameter. The value printed in the notebook is
  \<open>conll_label_names\<close>.
\<close>

definition conll_label_names :: "string list" where
  "conll_label_names =
     [''O'', ''B-PER'', ''I-PER'', ''B-ORG'', ''I-ORG'', ''B-LOC'', ''I-LOC'', ''B-MISC'', ''I-MISC'']"

text \<open>
  \<open>postprocess(predictions, labels)\<close>, after both tensors have been turned into
  integer arrays:
  \<^verbatim>\<open>
    true_labels = [[label_names[l] for l in label if l != -100] for label in labels]
    true_predictions = [
        [label_names[p] for (p, l) in zip(prediction, label) if l != -100]
        for prediction, label in zip(predictions, labels)
    ]
    return true_labels, true_predictions
  \<close>
  Python's \<open>zip\<close> stops at the shorter argument, as \<^const>\<open>zip\<close> does.
\<close>

definition postprocess :: "string list \<Rightarrow> int list list \<Rightarrow> int list list \<Rightarrow> py_error + (string list list \<times> string list list)" where
  "postprocess label_names predictions labels =
     (case comprehension (\<lambda>label. True)
             (\<lambda>label. comprehension (\<lambda>l. l \<noteq> - 100) (\<lambda>l. list_getitem label_names l) label)
             labels of
        Inl e \<Rightarrow> Inl e
      | Inr true_labels \<Rightarrow>
         (case comprehension (\<lambda>(prediction, label). True)
                 (\<lambda>(prediction, label).
                    comprehension (\<lambda>(p, l). l \<noteq> - 100) (\<lambda>(p, l). list_getitem label_names p)
                      (zip prediction label))
                 (zip predictions labels) of
            Inl e \<Rightarrow> Inl e
          | Inr true_predictions \<Rightarrow> Inr (true_labels, true_predictions)))"

text \<open>
  The decoding step of \<open>compute_metrics\<close>: the two comprehensions between the
  \<open>argmax\<close> that yields \<open>predictions\<close> and the call of the external metric. The
  value is the pair \<open>(true_labels, true_predictions)\<close> handed to the metric.
\<close>

definition compute_metrics_decode :: "string list \<Rightarrow> int list list \<Rightarrow> int list list \<Rightarrow> py_error + (string list list \<times> string list list)" where
  "compute_metrics_decode label_names predictions labels =
     (case comprehension (\<lambda>label. True)
             (\<lambda>label. comprehension (\<lambda>l. l \<noteq> - 100) (\<lambda>l. list_getitem label_names l) label)
             labels of
        Inl e \<Rightarrow> Inl e
      | Inr true_labels \<Rightarrow>
         (case comprehension (\<lambda>(prediction, label). True)
                 (\<lambda>(prediction, label).
                    comprehension (\<lambda>(p, l). l \<noteq> - 100) (\<lambda>(p, l). list_getitem label_names p)
                      (zip prediction label))
                 (zip predictions labels) of
            Inl e \<Rightarrow> Inl e
          | Inr true_predictions \<Rightarrow> Inr (true_labels, true_predictions)))"

section \<open>Predicates used to state the properties\<close>

text \<open>A word id is usable when Python accepts it as a subscript of \<open>labels\<close>.\<close>

definition valid_word_id :: "int list \<Rightarrow> int option \<Rightarrow> bool" where
  "valid_word_id labels word_id =
     (case word_id of
        None \<Rightarrow> True
      | Some w \<Rightarrow> - int (length labels) \<le> w \<and> w < int (length labels))"

definition valid_word_ids :: "int list \<Rightarrow> int option list \<Rightarrow> bool" where
  "valid_word_ids labels word_ids = list_all (valid_word_id labels) word_ids"

text \<open>A valid id of the label-name table is one of \<open>0 .. len(label_names)-1\<close>.\<close>

definition valid_id :: "string list \<Rightarrow> int \<Rightarrow> bool" where
  "valid_id label_names c = (0 \<le> c \<and> c < int (length label_names))"

text \<open>
  Python accepts more subscripts of \<open>label_names\<close> than the valid ids: the codes
  \<open>-len(label_names) .. len(label_names)-1\<close>. \<open>name_at\<close> is the entry that such a
  subscript reads.
\<close>

definition accepted_subscript :: "string list \<Rightarrow> int \<Rightarrow> bool" where
  "accepted_subscript label_names c =
     (- int (length label_names) \<le> c \<and> c < int (length label_names))"

definition name_at :: "string list \<Rightarrow> int \<Rightarrow> string" where
  "name_at label_names c =
     label_names ! nat (if c < 0 then int (length label_names) + c else c)"

text \<open>Two batches have the same shape: as many rows, and rows of equal length.\<close>

definition same_shape :: "int list list \<Rightarrow> int list list \<Rightarrow> bool" where
  "same_shape predictions labels =
     list_all2 (\<lambda>prediction label. length prediction = length label) predictions labels"

text \<open>
  The codes that survive the filtering are every gold label other than \<open>-100\<close>, and
  every prediction that \<open>zip\<close> pairs with a gold label other than \<open>-100\<close>.
  \<open>surviving_codes ok predictions labels\<close> says that all of them satisfy \<open>ok\<close>.
\<close>

definition surviving_codes :: "(int \<Rightarrow> bool) \<Rightarrow> int list list \<Rightarrow> int list list \<Rightarrow> bool" where
  "surviving_codes ok predictions labels =
     (list_all (list_all (\<lambda>l. l = - 100 \<or> ok l)) labels \<and>
      list_all (\<lambda>(prediction, label).
                  list_all (\<lambda>(p, l). l = - 100 \<or> ok p) (zip prediction label))
        (zip predictions labels))"

text \<open>
  The code the loop writes for a token that continues a word: an odd code \<open>c\<close>
  becomes \<open>c + 1\<close>, an even code stays.
\<close>

definition inside_code :: "int \<Rightarrow> int" where
  "inside_code c = (if odd c then c + 1 else c)"

text \<open>
  The paired label space with \<open>num_labels\<close> codes: code 0, then pairs of an odd
  code and the even code after it, so \<open>num_labels\<close> is odd and the codes are
  \<open>0 .. num_labels - 1\<close>.
\<close>

definition in_label_space :: "int \<Rightarrow> int list \<Rightarrow> bool" where
  "in_label_space num_labels labels =
     (odd num_labels \<and> list_all (\<lambda>c. 0 \<le> c \<and> c < num_labels) labels)"

text \<open>
  What the two comprehensions produce when no name lookup fails: the names of the
  gold labels other than \<open>-100\<close>, row by row, and the names of the predictions
  that \<open>zip\<close> pairs with them.
\<close>

definition gold_names :: "string list \<Rightarrow> int list list \<Rightarrow> string list list" where
  "gold_names names labels =
     map (\<lambda>label. map (name_at names) (filter (\<lambda>l. l \<noteq> - 100) label)) labels"

definition predicted_names :: "string list \<Rightarrow> int list list \<Rightarrow> int list list \<Rightarrow> string list list" where
  "predicted_names names predictions labels =
     map (\<lambda>(prediction, label).
            map (\<lambda>(p, l). name_at names p) (filter (\<lambda>(p, l). l \<noteq> - 100) (zip prediction label)))
       (zip predictions labels)"

section \<open>The alignment loop\<close>

text \<open>
  The loop is a left fold, so its facts are proved from the right end of the word-id
  map: running it over \<open>xs @ ys\<close> is running it over \<open>xs\<close> and then, from the
  state reached, over \<open>ys\<close>.
\<close>

lemma align_loop_append:
  "align_loop labels st (xs @ ys) =
     (case align_loop labels st xs of Inl e \<Rightarrow> Inl e | Inr st' \<Rightarrow> align_loop labels st' ys)"
  by (induction xs arbitrary: st) (auto split: sum.splits)

lemma align_loop_snoc:
  "align_loop labels st (xs @ [w]) =
     (case align_loop labels st xs of Inl e \<Rightarrow> Inl e | Inr st' \<Rightarrow> align_body labels st' w)"
  by (simp add: align_loop_append split: sum.splits)

text \<open>The body only appends to \<open>new_labels\<close>: what it appends does not depend on it.\<close>

lemma align_body_acc:
  "align_body labels (acc, cur) w =
     (case align_body labels ([], cur) w of
        Inl e \<Rightarrow> Inl e
      | Inr (out, cur') \<Rightarrow> Inr (acc @ out, cur'))"
  by (auto simp: align_body_def split: sum.splits option.splits)

lemma align_body_shape:
  "align_body labels ([], cur) w = Inr (out, cur') \<Longrightarrow> cur' = w \<and> (\<exists>l. out = [l])"
  by (auto simp: align_body_def split: sum.splits option.splits if_splits)

text \<open>
  When the loop returns, \<open>current_word\<close> before position \<open>i\<close> is the word id at
  position \<open>i - 1\<close> (\<open>None\<close> before position 0), that is \<open>(None # ws) ! i\<close>, and
  the label at position \<open>i\<close> is the one the body appends from that state.
\<close>

lemma align_loop_pointwise:
  "align_loop labels ([], None) ws = Inr (out, cur) \<Longrightarrow>
     length out = length ws \<and> cur = last (None # ws) \<and>
     (\<forall>i<length ws. align_body labels ([], (None # ws) ! i) (ws ! i) = Inr ([out ! i], ws ! i))"
proof (induction ws arbitrary: out cur rule: rev_induct)
  case Nil
  then show ?case by simp
next
  case (snoc w ws)
  from snoc.prems obtain out0 cur0 where
    run: "align_loop labels ([], None) ws = Inr (out0, cur0)" and
    step: "align_body labels (out0, cur0) w = Inr (out, cur)"
    by (auto simp: align_loop_snoc split: sum.splits)
  from snoc.IH [OF run] have
    len0: "length out0 = length ws" and
    cur0: "cur0 = last (None # ws)" and
    pt0: "\<forall>i<length ws. align_body labels ([], (None # ws) ! i) (ws ! i) = Inr ([out0 ! i], ws ! i)"
    by auto
  from step obtain o1 c1 where
    b: "align_body labels ([], cur0) w = Inr (o1, c1)" and o: "out = out0 @ o1" and c: "cur = c1"
    by (subst (asm) align_body_acc) (auto split: sum.splits)
  from align_body_shape [OF b] obtain l where c1: "c1 = w" and o1: "o1 = [l]"
    by auto
  have len: "length out = length (ws @ [w])"
    using o o1 len0 by simp
  have cur: "cur = last (None # ws @ [w])"
    using c c1 by simp
  have pt: "align_body labels ([], (None # ws @ [w]) ! i) ((ws @ [w]) ! i) = Inr ([out ! i], (ws @ [w]) ! i)"
    if "i < length (ws @ [w])" for i
  proof (cases "i < length ws")
    case True
    then have "(None # ws @ [w]) ! i = (None # ws) ! i"
      by (cases i) (simp_all add: nth_append)
    moreover have "(ws @ [w]) ! i = ws ! i" "out ! i = out0 ! i"
      using True o len0 by (simp_all add: nth_append)
    ultimately show ?thesis using pt0 True by simp
  next
    case False
    with that have i: "i = length ws" by simp
    have "(None # ws @ [w]) ! i = last (None # ws)"
      unfolding i by (cases ws rule: rev_cases) (simp_all add: nth_append)
    moreover have "(ws @ [w]) ! i = w" "out ! i = l"
      using i o o1 len0 by (simp_all add: nth_append)
    ultimately show ?thesis using b c1 o1 cur0 by simp
  qed
  from len cur pt show ?case by simp
qed

section \<open>One token per word\<close>

lemma align_loop_identity_prefix:
  "n \<le> length L \<Longrightarrow>
     align_loop L ([], None) (map (\<lambda>i. Some (int i)) [0..<n]) =
       Inr (take n L, last (None # map (\<lambda>i. Some (int i)) [0..<n]))"
proof (induction n)
  case 0
  then show ?case by simp
next
  case (Suc n)
  then have n: "n < length L" by simp
  have prev: "last (None # map (\<lambda>i. Some (int i)) [0..<n]) \<noteq> Some (int n)"
    by (cases n) simp_all
  have get: "list_getitem L (int n) = Inr (L ! n)"
    using n by (simp add: list_getitem_def)
  have "align_body L (take n L, last (None # map (\<lambda>i. Some (int i)) [0..<n])) (Some (int n)) =
          Inr (take n L @ [L ! n], Some (int n))"
    using prev get by (simp add: align_body_def)
  then show ?case
    using Suc n by (simp add: align_loop_snoc take_Suc_conv_app_nth)
qed

text \<open>
  Claim C4. For every label sequence \<open>L\<close>, aligning \<open>L\<close> against the word-id map
  \<open>[0, 1, ..., len(L)-1]\<close>, which gives every word exactly one token and has no
  marker token, returns \<open>L\<close> unchanged.
\<close>

theorem align_one_token_per_word:
  "align_labels_with_tokens L (map (\<lambda>i. Some (int i)) [0..<length L]) = Inr L"
  by (simp add: align_labels_with_tokens_def align_loop_identity_prefix)

section \<open>The loop returns on valid word ids\<close>

lemma list_getitem_valid:
  "valid_word_id labels (Some w) \<Longrightarrow> \<exists>c. list_getitem labels w = Inr c \<and> c \<in> set labels"
  by (auto simp: valid_word_id_def list_getitem_def)

lemma align_body_total:
  "valid_word_id labels w \<Longrightarrow> \<exists>st'. align_body labels st w = Inr st'"
proof (cases w)
  case None
  then show ?thesis by (cases st) (simp add: align_body_def)
next
  case (Some i)
  assume "valid_word_id labels w"
  with Some obtain c where "list_getitem labels i = Inr c"
    using list_getitem_valid by blast
  with Some show ?thesis by (cases st) (auto simp: align_body_def)
qed

lemma align_loop_total:
  "valid_word_ids labels ws \<Longrightarrow> \<exists>st'. align_loop labels st ws = Inr st'"
proof (induction ws arbitrary: st)
  case Nil
  then show ?case by simp
next
  case (Cons w ws)
  then have "valid_word_id labels w" and rest: "valid_word_ids labels ws"
    by (simp_all add: valid_word_ids_def)
  then obtain st1 where "align_body labels st w = Inr st1"
    using align_body_total by blast
  with Cons.IH [OF rest, of st1] show ?case by simp
qed

lemma align_body_None:
  "align_body labels ([], cur) None = Inr ([- 100], None)"
  by (cases cur) (simp_all add: align_body_def)

lemma align_body_first:
  "cur \<noteq> Some w \<Longrightarrow> list_getitem labels w = Inr c \<Longrightarrow>
     align_body labels ([], cur) (Some w) = Inr ([c], Some w)"
  by (auto simp: align_body_def)

lemma align_body_next:
  "list_getitem labels w = Inr c \<Longrightarrow>
     align_body labels ([], Some w) (Some w) = Inr ([inside_code c], Some w)"
  by (auto simp: align_body_def inside_code_def odd_iff_mod_2_eq_one)

lemma align_returns:
  assumes "valid_word_ids labels ws"
  shows "\<exists>out. align_labels_with_tokens labels ws = Inr out \<and> length out = length ws \<and>
           (\<forall>i<length ws. align_body labels ([], (None # ws) ! i) (ws ! i) = Inr ([out ! i], ws ! i))"
proof -
  from align_loop_total [OF assms] obtain out cur where
    run: "align_loop labels ([], None) ws = Inr (out, cur)"
    by (metis surj_pair)
  from align_loop_pointwise [OF run] run show ?thesis
    by (simp add: align_labels_with_tokens_def)
qed

lemma align_run:
  assumes valid: "valid_word_ids labels (pre @ replicate k (Some w) @ post)"
    and c: "list_getitem labels w = Inr c"
    and start: "pre = [] \<or> last pre \<noteq> Some w"
  shows "\<exists>out. align_labels_with_tokens labels (pre @ replicate k (Some w) @ post) = Inr out \<and>
           (\<forall>j<k. out ! (length pre + j) = (if j = 0 then c else inside_code c)) \<and>
           take k (drop (length pre) out) = replicate (min k 1) c @ replicate (k - 1) (inside_code c)"
proof -
  let ?ws = "pre @ replicate k (Some w) @ post"
  from align_returns [OF valid] obtain out where
    ret: "align_labels_with_tokens labels ?ws = Inr out" and
    len: "length out = length ?ws" and
    pt: "\<forall>i<length ?ws. align_body labels ([], (None # ?ws) ! i) (?ws ! i) = Inr ([out ! i], ?ws ! i)"
    by blast
  have at: "out ! (length pre + j) = (if j = 0 then c else inside_code c)" if j: "j < k" for j
  proof -
    have cur: "?ws ! (length pre + j) = Some w"
      using j by (simp add: nth_append)
    have b: "align_body labels ([], (None # ?ws) ! (length pre + j)) (Some w) =
               Inr ([out ! (length pre + j)], Some w)"
      using pt j cur by (metis (no_types, lifting) add_less_cancel_left length_append
          length_replicate trans_less_add1)
    show ?thesis
    proof (cases j)
      case 0
      have "(None # ?ws) ! length pre = last (None # pre)"
        by (cases pre rule: rev_cases) (simp_all add: nth_append)
      then have "(None # ?ws) ! (length pre + j) \<noteq> Some w"
        using start 0 by auto
      from align_body_first [OF this c] b 0 show ?thesis by simp
    next
      case (Suc j')
      then have "(None # ?ws) ! (length pre + j) = ?ws ! (length pre + j')"
        by simp
      also have "\<dots> = Some w"
        using j Suc by (simp add: nth_append)
      finally have "(None # ?ws) ! (length pre + j) = Some w" .
      with align_body_next [OF c] b Suc show ?thesis by simp
    qed
  qed
  have "take k (drop (length pre) out) = replicate (min k 1) c @ replicate (k - 1) (inside_code c)"
  proof (rule nth_equalityI)
    show "length (take k (drop (length pre) out)) =
            length (replicate (min k 1) c @ replicate (k - 1) (inside_code c))"
      using len by (cases k) simp_all
  next
    fix j assume "j < length (take k (drop (length pre) out))"
    then have j: "j < k" by simp
    then have "take k (drop (length pre) out) ! j = out ! (length pre + j)"
      using len by simp
    also have "\<dots> = (if j = 0 then c else inside_code c)"
      using at j by simp
    also have "\<dots> = (replicate (min k 1) c @ replicate (k - 1) (inside_code c)) ! j"
      using j by (cases j) (simp_all add: nth_append min_def)
    finally show "take k (drop (length pre) out) ! j =
        (replicate (min k 1) c @ replicate (k - 1) (inside_code c)) ! j" .
  qed
  with ret at show ?thesis by blast
qed

lemma align_body_Some:
  assumes "list_getitem labels w = Inr c"
    and "align_body labels ([], cur) (Some w) = Inr ([l], cw)"
  shows "l = c \<or> (odd c \<and> l = c + 1)"
proof (cases "cur = Some w")
  case True
  with align_body_next [OF assms(1)] assms(2) show ?thesis
    by (auto simp: inside_code_def)
next
  case False
  from align_body_first [OF False assms(1)] assms(2) show ?thesis by simp
qed

section \<open>Words split into several tokens\<close>

text \<open>
  Claim C1. Let word \<open>w\<close>, with label code \<open>c = labels[w]\<close>, occupy \<open>k \<ge> 1\<close>
  consecutive positions of the word-id map, the entry just before the run (if there
  is one) being another word id or \<open>None\<close>. Then \<open>align_labels_with_tokens\<close>
  returns, and its output at those \<open>k\<close> positions is \<open>[c, c', ..., c']\<close>, where
  \<open>c' = c + 1\<close> if \<open>c\<close> is odd and \<open>c' = c\<close> otherwise.
\<close>

theorem align_split_word:
  assumes "valid_word_ids labels (pre @ replicate k (Some w) @ post)"
    and "list_getitem labels w = Inr c"
    and "1 \<le> k"
    and "pre = [] \<or> last pre \<noteq> Some w"
  shows "\<exists>out. align_labels_with_tokens labels (pre @ replicate k (Some w) @ post) = Inr out \<and>
           take k (drop (length pre) out) = c # replicate (k - 1) (if odd c then c + 1 else c)"
proof -
  from align_run [OF assms(1,2,4)] obtain out where
    ret: "align_labels_with_tokens labels (pre @ replicate k (Some w) @ post) = Inr out" and
    seg: "take k (drop (length pre) out) = replicate (min k 1) c @ replicate (k - 1) (inside_code c)"
    by blast
  from assms(3) have "min k 1 = 1" by simp
  with seg have "take k (drop (length pre) out) = c # replicate (k - 1) (if odd c then c + 1 else c)"
    by (simp add: inside_code_def)
  with ret show ?thesis by blast
qed

theorem align_split_word_witness:
  "valid_word_ids [3, 0, 7, 7] ([None, Some 0, Some 1, Some 2] @ replicate 2 (Some 3) @ [None]) \<and>
   list_getitem [3, 0, 7, 7] 3 = Inr (7::int) \<and> (1::nat) \<le> 2 \<and>
   last [None, Some 0, Some 1, Some 2] \<noteq> Some (3::int) \<and>
   (\<exists>out. align_labels_with_tokens [3, 0, 7, 7]
             ([None, Some 0, Some 1, Some 2] @ replicate 2 (Some 3) @ [None]) = Inr out \<and>
          take 2 (drop 4 out) = [7, 8])"
proof -
  have h1: "valid_word_ids [3, 0, 7, 7]
              ([None, Some 0, Some 1, Some 2] @ replicate 2 (Some 3) @ [None])"
    by (simp add: valid_word_ids_def valid_word_id_def eval_nat_numeral)
  have h2: "list_getitem [3, 0, 7, 7] 3 = Inr (7::int)"
    by (simp add: list_getitem_def)
  have h3: "(1::nat) \<le> 2"
    by simp
  have h4: "last [None, Some 0, Some 1, Some 2] \<noteq> Some (3::int)"
    by simp
  then have "[None, Some 0, Some 1, Some 2] = [] \<or> last [None, Some 0, Some 1, Some 2] \<noteq> Some (3::int)"
    by simp
  from align_split_word [OF h1 h2 h3 this]
  have "\<exists>out. align_labels_with_tokens [3, 0, 7, 7]
                ([None, Some 0, Some 1, Some 2] @ replicate 2 (Some 3) @ [None]) = Inr out \<and>
              take 2 (drop 4 out) = [7, 8]"
    by (simp add: eval_nat_numeral)
  with h1 h2 h3 h4 show ?thesis by blast
qed

text \<open>
  Claim C6. For a word that occupies \<open>N \<ge> 1\<close> consecutive positions, the output at
  the first of them is the word's own label \<open>c\<close>, unchanged; the output at each of
  the other \<open>N - 1\<close> positions is the word's inside label, that is \<open>c + 1\<close> for an
  odd \<open>c\<close> and \<open>c\<close> itself for an even \<open>c\<close>, which is an even code. So an odd
  (beginning-of-span) code can stand only at the word's first token, and the run
  holds at most one odd code.
\<close>

theorem align_one_beginning_per_word:
  assumes "valid_word_ids labels (pre @ replicate k (Some w) @ post)"
    and "list_getitem labels w = Inr c"
    and "1 \<le> k"
    and "pre = [] \<or> last pre \<noteq> Some w"
  shows "\<exists>out. align_labels_with_tokens labels (pre @ replicate k (Some w) @ post) = Inr out \<and>
           out ! length pre = c \<and>
           (\<forall>j. 1 \<le> j \<and> j < k \<longrightarrow>
                out ! (length pre + j) = (if odd c then c + 1 else c) \<and>
                even (out ! (length pre + j))) \<and>
           (\<forall>j<k. odd (out ! (length pre + j)) \<longrightarrow> j = 0) \<and>
           length (filter odd (take k (drop (length pre) out))) \<le> 1"
proof -
  from align_run [OF assms(1,2,4)] obtain out where
    ret: "align_labels_with_tokens labels (pre @ replicate k (Some w) @ post) = Inr out" and
    at: "\<forall>j<k. out ! (length pre + j) = (if j = 0 then c else inside_code c)" and
    seg: "take k (drop (length pre) out) = replicate (min k 1) c @ replicate (k - 1) (inside_code c)"
    by blast
  have ev: "even (inside_code c)"
    by (simp add: inside_code_def)
  from assms(3) have "0 < k" by simp
  with at have first: "out ! length pre = c"
    by fastforce
  have rest: "\<forall>j. 1 \<le> j \<and> j < k \<longrightarrow>
                out ! (length pre + j) = (if odd c then c + 1 else c) \<and>
                even (out ! (length pre + j))"
    using at ev by (auto simp: inside_code_def)
  have only: "\<forall>j<k. odd (out ! (length pre + j)) \<longrightarrow> j = 0"
    using at ev by auto
  have "filter odd (replicate (k - 1) (inside_code c)) = []"
    using ev by simp
  with seg have "length (filter odd (take k (drop (length pre) out))) \<le> 1"
    by (simp add: min_def)
  with ret first rest only show ?thesis by blast
qed

theorem align_one_beginning_per_word_witness:
  "valid_word_ids [3, 0, 7, 7] ([None, Some 0, Some 1, Some 2] @ replicate 3 (Some 3) @ [None]) \<and>
   list_getitem [3, 0, 7, 7] 3 = Inr (7::int) \<and> (1::nat) \<le> 3 \<and>
   last [None, Some 0, Some 1, Some 2] \<noteq> Some (3::int) \<and>
   (\<exists>out. align_labels_with_tokens [3, 0, 7, 7]
             ([None, Some 0, Some 1, Some 2] @ replicate 3 (Some 3) @ [None]) = Inr out \<and>
          out ! 4 = 7 \<and> out ! 5 = 8 \<and> out ! 6 = 8 \<and>
          length (filter odd (take 3 (drop 4 out))) \<le> 1)"
proof -
  have h1: "valid_word_ids [3, 0, 7, 7]
              ([None, Some 0, Some 1, Some 2] @ replicate 3 (Some 3) @ [None])"
    by (simp add: valid_word_ids_def valid_word_id_def eval_nat_numeral)
  have h2: "list_getitem [3, 0, 7, 7] 3 = Inr (7::int)"
    by (simp add: list_getitem_def)
  have h3: "(1::nat) \<le> 3"
    by simp
  have h4: "last [None, Some 0, Some 1, Some 2] \<noteq> Some (3::int)"
    by simp
  then have "[None, Some 0, Some 1, Some 2] = [] \<or> last [None, Some 0, Some 1, Some 2] \<noteq> Some (3::int)"
    by simp
  from align_one_beginning_per_word [OF h1 h2 h3 this]
  obtain out where
    ret: "align_labels_with_tokens [3, 0, 7, 7]
            ([None, Some 0, Some 1, Some 2] @ replicate 3 (Some 3) @ [None]) = Inr out" and
    first: "out ! length [None, Some 0, Some 1, Some (2::int)] = 7" and
    rest: "\<forall>j. 1 \<le> j \<and> j < 3 \<longrightarrow>
             out ! (length [None, Some 0, Some 1, Some (2::int)] + j) =
               (if odd (7::int) then 7 + 1 else 7) \<and>
             even (out ! (length [None, Some 0, Some 1, Some (2::int)] + j))" and
    count: "length (filter odd (take 3 (drop (length [None, Some 0, Some 1, Some (2::int)]) out))) \<le> 1"
    by blast
  from first have a: "out ! 4 = 7"
    by (simp add: eval_nat_numeral)
  from rest [rule_format, of 1] have b: "out ! 5 = 8"
    by (simp add: eval_nat_numeral)
  from rest [rule_format, of 2] have c: "out ! 6 = 8"
    by (simp add: eval_nat_numeral)
  from count have d: "length (filter odd (take 3 (drop 4 out))) \<le> 1"
    by (simp add: eval_nat_numeral)
  from ret a b c d h1 h2 h3 h4 show ?thesis by blast
qed

text \<open>
  Claim C2. When every word id of the map is \<open>None\<close> or a valid subscript of
  \<open>labels\<close>, \<open>align_labels_with_tokens\<close> returns without error a sequence as long
  as the word-id map; it is \<open>-100\<close> wherever the map has \<open>None\<close>; everywhere else
  it is the word's label \<open>c\<close>, or \<open>c + 1\<close> for an odd \<open>c\<close>, which is a code of
  the paired label space when the labels are drawn from it. An empty word-id map
  gives the empty output.
\<close>

theorem align_output_contract:
  assumes "valid_word_ids labels word_ids"
  shows "\<exists>out. align_labels_with_tokens labels word_ids = Inr out \<and>
           length out = length word_ids \<and>
           (word_ids = [] \<longrightarrow> out = []) \<and>
           (\<forall>i<length word_ids.
              case word_ids ! i of
                None \<Rightarrow> out ! i = - 100
              | Some w \<Rightarrow>
                 (\<exists>c. list_getitem labels w = Inr c \<and> (out ! i = c \<or> (odd c \<and> out ! i = c + 1))) \<and>
                 (in_label_space num_labels labels \<longrightarrow> 0 \<le> out ! i \<and> out ! i < num_labels))"
proof -
  from align_returns [OF assms] obtain out where
    ret: "align_labels_with_tokens labels word_ids = Inr out" and
    len: "length out = length word_ids" and
    pt: "\<forall>i<length word_ids.
           align_body labels ([], (None # word_ids) ! i) (word_ids ! i) = Inr ([out ! i], word_ids ! i)"
    by blast
  have each: "case word_ids ! i of
                None \<Rightarrow> out ! i = - 100
              | Some w \<Rightarrow>
                 (\<exists>c. list_getitem labels w = Inr c \<and> (out ! i = c \<or> (odd c \<and> out ! i = c + 1))) \<and>
                 (in_label_space num_labels labels \<longrightarrow> 0 \<le> out ! i \<and> out ! i < num_labels)"
    if i: "i < length word_ids" for i
  proof (cases "word_ids ! i")
    case None
    from pt i have "align_body labels ([], (None # word_ids) ! i) (word_ids ! i) =
        Inr ([out ! i], word_ids ! i)"
      by blast
    then have "align_body labels ([], (None # word_ids) ! i) None = Inr ([out ! i], None)"
      unfolding None .
    with None show ?thesis by (simp add: align_body_None)
  next
    case (Some w)
    from assms i have "valid_word_id labels (word_ids ! i)"
      by (simp add: valid_word_ids_def list_all_length)
    with Some obtain c where c: "list_getitem labels w = Inr c" and mem: "c \<in> set labels"
      using list_getitem_valid by auto
    from pt i have "align_body labels ([], (None # word_ids) ! i) (word_ids ! i) =
        Inr ([out ! i], word_ids ! i)"
      by blast
    then have "align_body labels ([], (None # word_ids) ! i) (Some w) = Inr ([out ! i], Some w)"
      unfolding Some .
    from align_body_Some [OF c this] have val: "out ! i = c \<or> (odd c \<and> out ! i = c + 1)" .
    have "0 \<le> out ! i \<and> out ! i < num_labels" if sp: "in_label_space num_labels labels"
    proof -
      from sp mem have "0 \<le> c" "c < num_labels" "odd num_labels"
        by (auto simp: in_label_space_def list_all_iff)
      with val show ?thesis by presburger
    qed
    with c val Some show ?thesis by auto
  qed
  from len have "word_ids = [] \<longrightarrow> out = []" by auto
  with ret len each show ?thesis by blast
qed

theorem align_output_contract_witness:
  "valid_word_ids [3, 0, 7] [None, Some 0, Some 1, Some 2, Some 2, None] \<and>
   in_label_space 9 [3, 0, 7] \<and>
   (\<exists>out. align_labels_with_tokens [3, 0, 7] [None, Some 0, Some 1, Some 2, Some 2, None] = Inr out \<and>
          length out = 6 \<and> out ! 0 = - 100 \<and> out ! 5 = - 100 \<and>
          0 \<le> out ! 4 \<and> out ! 4 < 9)"
proof -
  have h1: "valid_word_ids [3, 0, 7] [None, Some 0, Some 1, Some 2, Some 2, None]"
    by (simp add: valid_word_ids_def valid_word_id_def)
  have h2: "in_label_space 9 [3, 0, 7]"
    by (simp add: in_label_space_def)
  from align_output_contract [OF h1, of 9] h2
  obtain out where
    ret: "align_labels_with_tokens [3, 0, 7] [None, Some 0, Some 1, Some 2, Some 2, None] = Inr out" and
    len: "length out = length [None, Some 0, Some 1, Some (2::int), Some 2, None]" and
    each: "\<forall>i<length [None, Some 0, Some 1, Some (2::int), Some 2, None].
              case [None, Some 0, Some 1, Some 2, Some 2, None] ! i of
                None \<Rightarrow> out ! i = - 100
              | Some w \<Rightarrow>
                 (\<exists>c. list_getitem [3, 0, 7] w = Inr c \<and> (out ! i = c \<or> (odd c \<and> out ! i = c + 1))) \<and>
                 (in_label_space 9 [3, 0, 7] \<longrightarrow> 0 \<le> out ! i \<and> out ! i < 9)"
    by blast
  from each [rule_format, of 0] have a: "out ! 0 = - 100" by simp
  from each [rule_format, of 5] have b: "out ! 5 = - 100" by simp
  from each [rule_format, of 4] h2 have c: "0 \<le> out ! 4 \<and> out ! 4 < 9" by simp
  from len have "length out = 6" by simp
  with ret a b c h1 h2 show ?thesis by blast
qed

section \<open>What a position depends on\<close>

text \<open>
  Claim C10. The label at position \<open>i\<close> depends only on \<open>labels\<close> and on the
  word ids at positions \<open>i - 1\<close> and \<open>i\<close> (position 0 counts as preceded by
  \<open>None\<close>): two word-id maps that agree there get the same label at \<open>i\<close>. So when a
  word id comes back after other entries, \<open>align_labels_with_tokens\<close> takes it for
  the start of a new word and writes the word's own label again.
\<close>

theorem align_depends_on_two_entries:
  "(valid_word_ids labels ws1 \<and> valid_word_ids labels ws2 \<and>
    i < length ws1 \<and> i < length ws2 \<and>
    ws1 ! i = ws2 ! i \<and> (i = 0 \<or> ws1 ! (i - 1) = ws2 ! (i - 1)) \<longrightarrow>
      (\<exists>o1 o2. align_labels_with_tokens labels ws1 = Inr o1 \<and>
               align_labels_with_tokens labels ws2 = Inr o2 \<and> o1 ! i = o2 ! i)) \<and>
   (valid_word_ids labels (pre @ Some w # mid @ Some w # post) \<and>
    mid \<noteq> [] \<and> last mid \<noteq> Some w \<and> list_getitem labels w = Inr c \<longrightarrow>
      (\<exists>out. align_labels_with_tokens labels (pre @ Some w # mid @ Some w # post) = Inr out \<and>
             out ! (length pre + 1 + length mid) = c))"
proof (intro conjI impI)
  assume h: "valid_word_ids labels ws1 \<and> valid_word_ids labels ws2 \<and>
    i < length ws1 \<and> i < length ws2 \<and>
    ws1 ! i = ws2 ! i \<and> (i = 0 \<or> ws1 ! (i - 1) = ws2 ! (i - 1))"
  from h align_returns [of labels ws1] obtain o1 where
    r1: "align_labels_with_tokens labels ws1 = Inr o1" and
    p1: "\<forall>i<length ws1. align_body labels ([], (None # ws1) ! i) (ws1 ! i) = Inr ([o1 ! i], ws1 ! i)"
    by blast
  from h align_returns [of labels ws2] obtain o2 where
    r2: "align_labels_with_tokens labels ws2 = Inr o2" and
    p2: "\<forall>i<length ws2. align_body labels ([], (None # ws2) ! i) (ws2 ! i) = Inr ([o2 ! i], ws2 ! i)"
    by blast
  from h have prev: "(None # ws1) ! i = (None # ws2) ! i"
    by (cases i) auto
  from p1 h have "align_body labels ([], (None # ws1) ! i) (ws1 ! i) = Inr ([o1 ! i], ws1 ! i)"
    by blast
  moreover from p2 h have "align_body labels ([], (None # ws2) ! i) (ws2 ! i) = Inr ([o2 ! i], ws2 ! i)"
    by blast
  ultimately have "o1 ! i = o2 ! i"
    using prev h by simp
  with r1 r2 show "\<exists>o1 o2. align_labels_with_tokens labels ws1 = Inr o1 \<and>
               align_labels_with_tokens labels ws2 = Inr o2 \<and> o1 ! i = o2 ! i"
    by blast
next
  assume h: "valid_word_ids labels (pre @ Some w # mid @ Some w # post) \<and>
    mid \<noteq> [] \<and> last mid \<noteq> Some w \<and> list_getitem labels w = Inr c"
  let ?pre = "pre @ Some w # mid"
  have eq: "pre @ Some w # mid @ Some w # post = ?pre @ replicate 1 (Some w) @ post"
    by simp
  from h have start: "?pre = [] \<or> last ?pre \<noteq> Some w"
    by simp
  from h have valid: "valid_word_ids labels (?pre @ replicate 1 (Some w) @ post)"
    by simp
  from h have c: "list_getitem labels w = Inr c"
    by simp
  from align_run [OF valid c start] obtain out where
    ret: "align_labels_with_tokens labels (?pre @ replicate 1 (Some w) @ post) = Inr out" and
    at: "\<forall>j<1. out ! (length ?pre + j) = (if j = 0 then c else inside_code c)"
    by blast
  from at have "out ! (length pre + 1 + length mid) = c"
    by simp
  with ret show "\<exists>out. align_labels_with_tokens labels (pre @ Some w # mid @ Some w # post) = Inr out \<and>
             out ! (length pre + 1 + length mid) = c"
    by simp
qed

theorem align_depends_on_two_entries_witness:
  "valid_word_ids [3, 1, 7] [None, Some 0, Some 1, Some 1] \<and>
   valid_word_ids [3, 1, 7] [Some 2, Some 2, Some 1, Some 1, None] \<and>
   [None, Some 0, Some 1, Some (1::int)] ! 3 = [Some 2, Some 2, Some 1, Some 1, None] ! 3 \<and>
   [None, Some 0, Some 1, Some (1::int)] ! 2 = [Some 2, Some 2, Some 1, Some 1, None] ! 2 \<and>
   (\<exists>o1 o2. align_labels_with_tokens [3, 1, 7] [None, Some 0, Some 1, Some 1] = Inr o1 \<and>
            align_labels_with_tokens [3, 1, 7] [Some 2, Some 2, Some 1, Some 1, None] = Inr o2 \<and>
            o1 ! 3 = o2 ! 3) \<and>
   valid_word_ids [3, 1, 7] ([None] @ Some 0 # [Some 1] @ Some 0 # [None]) \<and>
   last [Some (1::int)] \<noteq> Some 0 \<and> list_getitem [3, 1, 7] 0 = Inr (3::int) \<and>
   (\<exists>out. align_labels_with_tokens [3, 1, 7] ([None] @ Some 0 # [Some 1] @ Some 0 # [None]) = Inr out \<and>
          out ! 3 = 3)"
proof -
  have v1: "valid_word_ids [3, 1, 7] [None, Some 0, Some 1, Some 1]"
    and v2: "valid_word_ids [3, 1, 7] [Some 2, Some 2, Some 1, Some 1, None]"
    and v3: "valid_word_ids [3, 1, 7] ([None] @ Some 0 # [Some 1] @ Some 0 # [None])"
    by (simp_all add: valid_word_ids_def valid_word_id_def)
  have g: "list_getitem [3, 1, 7] 0 = Inr (3::int)"
    by (simp add: list_getitem_def)
  have e3: "[None, Some 0, Some 1, Some (1::int)] ! 3 = [Some 2, Some 2, Some 1, Some 1, None] ! 3"
    and e2: "[None, Some 0, Some 1, Some (1::int)] ! 2 = [Some 2, Some 2, Some 1, Some 1, None] ! 2"
    by (simp_all add: eval_nat_numeral)
  have l: "last [Some (1::int)] \<noteq> Some 0"
    by simp
  note inst = align_depends_on_two_entries [of "[3, 1, 7]" "[None, Some 0, Some 1, Some 1]"
      "[Some 2, Some 2, Some 1, Some 1, None]" 3 "[None]" 0 "[Some 1]" "[None]" 3]
  from inst v1 v2 e3 e2
  have a: "\<exists>o1 o2. align_labels_with_tokens [3, 1, 7] [None, Some 0, Some 1, Some 1] = Inr o1 \<and>
            align_labels_with_tokens [3, 1, 7] [Some 2, Some 2, Some 1, Some 1, None] = Inr o2 \<and>
            o1 ! 3 = o2 ! 3"
    by simp
  from inst v3 l g
  have b: "\<exists>out. align_labels_with_tokens [3, 1, 7] ([None] @ Some 0 # [Some 1] @ Some 0 # [None]) = Inr out \<and>
          out ! 3 = 3"
    by (simp add: eval_nat_numeral)
  from v1 v2 e3 e2 a v3 l g b show ?thesis by blast
qed

section \<open>The comprehensions of the post-processing\<close>

lemma py_error_unique: "(e::py_error) = IndexError"
  by (cases e) simp

lemma comprehension_Inr:
  "(\<forall>x\<in>set xs. keep x \<longrightarrow> elt x = Inr (g x)) \<Longrightarrow>
     comprehension keep elt xs = Inr (map g (filter keep xs))"
  by (induction xs) simp_all

lemma comprehension_Inl:
  "x \<in> set xs \<Longrightarrow> keep x \<Longrightarrow> elt x = Inl e \<Longrightarrow>
     comprehension keep elt xs = Inl IndexError"
proof (induction xs)
  case Nil
  then show ?case by simp
next
  case (Cons a xs)
  show ?case
  proof (cases "a = x")
    case True
    with Cons.prems show ?thesis by (simp add: py_error_unique [of e])
  next
    case False
    with Cons have "comprehension keep elt xs = Inl IndexError" by simp
    then show ?thesis
      by (auto split: sum.splits simp: py_error_unique)
  qed
qed

lemma list_getitem_accepted:
  "accepted_subscript names c \<Longrightarrow> list_getitem names c = Inr (name_at names c)"
  by (auto simp: accepted_subscript_def list_getitem_def name_at_def)

lemma list_getitem_rejected:
  "\<not> accepted_subscript names c \<Longrightarrow> list_getitem names c = Inl IndexError"
  by (auto simp: accepted_subscript_def list_getitem_def)

lemma name_at_valid:
  "valid_id names c \<Longrightarrow> name_at names c = names ! nat c"
  by (simp add: valid_id_def name_at_def)

lemma valid_id_accepted:
  "valid_id names c \<Longrightarrow> accepted_subscript names c"
  by (simp add: valid_id_def accepted_subscript_def)

text \<open>The inner comprehensions, one row at a time; then the outer ones.\<close>

lemma gold_row_Inr:
  "list_all (\<lambda>l. l = - 100 \<or> accepted_subscript names l) label \<Longrightarrow>
     comprehension (\<lambda>l. l \<noteq> - 100) (\<lambda>l. list_getitem names l) label =
       Inr (map (name_at names) (filter (\<lambda>l. l \<noteq> - 100) label))"
  by (rule comprehension_Inr) (auto simp: list_all_iff list_getitem_accepted)

lemma gold_row_Inl:
  "\<not> list_all (\<lambda>l. l = - 100 \<or> accepted_subscript names l) label \<Longrightarrow>
     comprehension (\<lambda>l. l \<noteq> - 100) (\<lambda>l. list_getitem names l) label = Inl IndexError"
proof -
  assume "\<not> list_all (\<lambda>l. l = - 100 \<or> accepted_subscript names l) label"
  then obtain l where "l \<in> set label" "l \<noteq> - 100" "\<not> accepted_subscript names l"
    by (auto simp: list_all_iff)
  then show ?thesis
    by (intro comprehension_Inl [where x = l and e = IndexError]) (simp_all add: list_getitem_rejected)
qed

lemma pred_row_Inr:
  fixes pl :: "(int \<times> int) list"
  shows "list_all (\<lambda>(p, l). l = - 100 \<or> accepted_subscript names p) pl \<Longrightarrow>
     comprehension (\<lambda>(p, l). l \<noteq> - 100) (\<lambda>(p, l). list_getitem names p) pl =
       Inr (map (\<lambda>(p, l). name_at names p) (filter (\<lambda>(p, l). l \<noteq> - 100) pl))"
  by (rule comprehension_Inr) (auto simp: list_all_iff list_getitem_accepted)

lemma pred_row_Inl:
  fixes pl :: "(int \<times> int) list"
  shows "\<not> list_all (\<lambda>(p, l). l = - 100 \<or> accepted_subscript names p) pl \<Longrightarrow>
     comprehension (\<lambda>(p, l). l \<noteq> - 100) (\<lambda>(p, l). list_getitem names p) pl = Inl IndexError"
proof -
  assume "\<not> list_all (\<lambda>(p, l). l = - 100 \<or> accepted_subscript names p) pl"
  then obtain p l where "(p, l) \<in> set pl" "l \<noteq> - 100" "\<not> accepted_subscript names p"
    by (auto simp: list_all_iff)
  then show ?thesis
    by (intro comprehension_Inl [where x = "(p, l)" and e = IndexError])
      (simp_all add: list_getitem_rejected)
qed

lemma true_labels_Inr:
  "list_all (list_all (\<lambda>l. l = - 100 \<or> accepted_subscript names l)) labels \<Longrightarrow>
     comprehension (\<lambda>label. True)
       (\<lambda>label. comprehension (\<lambda>l. l \<noteq> - 100) (\<lambda>l. list_getitem names l) label) labels =
     Inr (gold_names names labels)"
  unfolding gold_names_def
  using comprehension_Inr [where keep = "\<lambda>label. True" and xs = labels
      and elt = "\<lambda>label. comprehension (\<lambda>l. l \<noteq> - 100) (\<lambda>l. list_getitem names l) label"
      and g = "\<lambda>label. map (name_at names) (filter (\<lambda>l. l \<noteq> - 100) label)"]
  by (simp add: list_all_iff gold_row_Inr)

lemma true_labels_Inl:
  "\<not> list_all (list_all (\<lambda>l. l = - 100 \<or> accepted_subscript names l)) labels \<Longrightarrow>
     comprehension (\<lambda>label. True)
       (\<lambda>label. comprehension (\<lambda>l. l \<noteq> - 100) (\<lambda>l. list_getitem names l) label) labels =
     Inl IndexError"
proof -
  assume "\<not> list_all (list_all (\<lambda>l. l = - 100 \<or> accepted_subscript names l)) labels"
  then obtain label where "label \<in> set labels"
    "\<not> list_all (\<lambda>l. l = - 100 \<or> accepted_subscript names l) label"
    by (auto simp: list_all_iff)
  then show ?thesis
    by (intro comprehension_Inl [where x = label and e = IndexError]) (simp_all add: gold_row_Inl)
qed

lemma true_predictions_Inr:
  fixes rows :: "(int list \<times> int list) list"
  shows "list_all (\<lambda>(prediction, label).
       list_all (\<lambda>(p, l). l = - 100 \<or> accepted_subscript names p) (zip prediction label)) rows \<Longrightarrow>
     comprehension (\<lambda>(prediction, label). True)
       (\<lambda>(prediction, label).
          comprehension (\<lambda>(p, l). l \<noteq> - 100) (\<lambda>(p, l). list_getitem names p) (zip prediction label))
       rows =
     Inr (map (\<lambda>(prediction, label).
            map (\<lambda>(p, l). name_at names p) (filter (\<lambda>(p, l). l \<noteq> - 100) (zip prediction label)))
          rows)"
proof -
  assume a: "list_all (\<lambda>(prediction, label).
       list_all (\<lambda>(p, l). l = - 100 \<or> accepted_subscript names p) (zip prediction label)) rows"
  have "comprehension (\<lambda>(prediction, label). True)
       (\<lambda>(prediction, label).
          comprehension (\<lambda>(p, l). l \<noteq> - 100) (\<lambda>(p, l). list_getitem names p) (zip prediction label))
       rows =
     Inr (map (\<lambda>(prediction, label).
            map (\<lambda>(p, l). name_at names p) (filter (\<lambda>(p, l). l \<noteq> - 100) (zip prediction label)))
          (filter (\<lambda>(prediction, label). True) rows))"
    by (rule comprehension_Inr) (use a in \<open>auto simp: list_all_iff pred_row_Inr\<close>)
  then show ?thesis by simp
qed

lemma true_predictions_Inl:
  fixes rows :: "(int list \<times> int list) list"
  shows "\<not> list_all (\<lambda>(prediction, label).
       list_all (\<lambda>(p, l). l = - 100 \<or> accepted_subscript names p) (zip prediction label)) rows \<Longrightarrow>
     comprehension (\<lambda>(prediction, label). True)
       (\<lambda>(prediction, label).
          comprehension (\<lambda>(p, l). l \<noteq> - 100) (\<lambda>(p, l). list_getitem names p) (zip prediction label))
       rows = Inl IndexError"
proof -
  assume "\<not> list_all (\<lambda>(prediction, label).
       list_all (\<lambda>(p, l). l = - 100 \<or> accepted_subscript names p) (zip prediction label)) rows"
  then obtain row where "row \<in> set rows"
    "\<not> (case row of (prediction, label) \<Rightarrow>
         list_all (\<lambda>(p, l). l = - 100 \<or> accepted_subscript names p) (zip prediction label))"
    unfolding list_all_iff [of _ rows] by blast
  then obtain prediction label where "(prediction, label) \<in> set rows"
    "\<not> list_all (\<lambda>(p, l). l = - 100 \<or> accepted_subscript names p) (zip prediction label)"
    by (cases row) auto
  then show ?thesis
    by (intro comprehension_Inl [where x = "(prediction, label)" and e = IndexError])
      (simp_all add: pred_row_Inl)
qed

lemma postprocess_Inr:
  "surviving_codes (accepted_subscript names) predictions labels \<Longrightarrow>
     postprocess names predictions labels =
       Inr (gold_names names labels, predicted_names names predictions labels)"
  by (simp add: surviving_codes_def postprocess_def true_labels_Inr true_predictions_Inr
      predicted_names_def)

lemma postprocess_Inl:
  "\<not> surviving_codes (accepted_subscript names) predictions labels \<Longrightarrow>
     postprocess names predictions labels = Inl IndexError"
proof (cases "list_all (list_all (\<lambda>l. l = - 100 \<or> accepted_subscript names l)) labels")
  case False
  then show ?thesis by (simp add: postprocess_def true_labels_Inl)
next
  case True
  assume "\<not> surviving_codes (accepted_subscript names) predictions labels"
  with True have "\<not> list_all (\<lambda>(prediction, label).
       list_all (\<lambda>(p, l). l = - 100 \<or> accepted_subscript names p) (zip prediction label))
         (zip predictions labels)"
    by (simp add: surviving_codes_def)
  then show ?thesis
    by (simp add: postprocess_def true_labels_Inr [OF True] true_predictions_Inl)
qed

lemma map_filter_positions:
  "map f (filter P xs) = map (\<lambda>i. f (xs ! i)) (filter (\<lambda>i. P (xs ! i)) [0..<length xs])"
proof -
  have "map f (filter P (map (\<lambda>i. xs ! i) [0..<length xs])) =
          map (\<lambda>i. f (xs ! i)) (filter (\<lambda>i. P (xs ! i)) [0..<length xs])"
    by (simp add: filter_map comp_def)
  then show ?thesis by (simp add: map_nth)
qed

lemma gold_names_row:
  assumes "r < length labels"
    and "list_all (\<lambda>l. l = - 100 \<or> valid_id names l) (labels ! r)"
  shows "gold_names names labels ! r =
           map (\<lambda>i. names ! nat (labels ! r ! i))
             (filter (\<lambda>i. labels ! r ! i \<noteq> - 100) [0..<length (labels ! r)])"
proof -
  have "gold_names names labels ! r =
          map (name_at names) (filter (\<lambda>l. l \<noteq> - 100) (labels ! r))"
    using assms(1) by (simp add: gold_names_def)
  also have "\<dots> = map (\<lambda>i. name_at names (labels ! r ! i))
                     (filter (\<lambda>i. labels ! r ! i \<noteq> - 100) [0..<length (labels ! r)])"
    by (rule map_filter_positions)
  also have "\<dots> = map (\<lambda>i. names ! nat (labels ! r ! i))
                     (filter (\<lambda>i. labels ! r ! i \<noteq> - 100) [0..<length (labels ! r)])"
    using assms(2) by (intro map_cong refl) (auto simp: list_all_length name_at_valid)
  finally show ?thesis .
qed

lemma predicted_names_row:
  assumes "r < length labels" and "r < length predictions"
    and "length (predictions ! r) = length (labels ! r)"
    and "list_all (\<lambda>(p, l). l = - 100 \<or> valid_id names p) (zip (predictions ! r) (labels ! r))"
  shows "predicted_names names predictions labels ! r =
           map (\<lambda>i. names ! nat (predictions ! r ! i))
             (filter (\<lambda>i. labels ! r ! i \<noteq> - 100) [0..<length (labels ! r)])"
proof -
  let ?p = "predictions ! r" and ?l = "labels ! r"
  have "predicted_names names predictions labels ! r =
          map (\<lambda>(p, l). name_at names p) (filter (\<lambda>(p, l). l \<noteq> - 100) (zip ?p ?l))"
    using assms(1,2) by (simp add: predicted_names_def)
  also have "\<dots> = map (\<lambda>i. (\<lambda>(p, l). name_at names p) (zip ?p ?l ! i))
                     (filter (\<lambda>i. (\<lambda>(p, l). l \<noteq> - 100) (zip ?p ?l ! i)) [0..<length (zip ?p ?l)])"
    by (rule map_filter_positions)
  also have "\<dots> = map (\<lambda>i. names ! nat (?p ! i))
                     (filter (\<lambda>i. ?l ! i \<noteq> - 100) [0..<length ?l])"
  proof -
    have len: "length (zip ?p ?l) = length ?l"
      using assms(3) by simp
    have f: "filter (\<lambda>i. (\<lambda>(p, l). l \<noteq> - 100) (zip ?p ?l ! i)) [0..<length (zip ?p ?l)] =
             filter (\<lambda>i. ?l ! i \<noteq> - 100) [0..<length ?l]"
      unfolding len using assms(3) by (intro filter_cong refl) simp
    have v: "valid_id names (?p ! i)" if "i < length ?l" "?l ! i \<noteq> - 100" for i
    proof -
      from that assms(3) have "(?p ! i, ?l ! i) \<in> set (zip ?p ?l)"
        by (metis in_set_zip fst_conv snd_conv)
      with assms(4) that(2) show ?thesis
        by (auto simp: list_all_iff)
    qed
    show ?thesis
      unfolding f using assms(3) v by (intro map_cong refl) (auto simp: name_at_valid)
  qed
  finally show ?thesis .
qed

lemma surviving_codes_weaken:
  "surviving_codes (valid_id names) predictions labels \<Longrightarrow>
     surviving_codes (accepted_subscript names) predictions labels"
  unfolding surviving_codes_def list_all_iff
  by (fastforce dest: valid_id_accepted)

lemma length_gold_names: "length (gold_names names labels) = length labels"
  by (simp add: gold_names_def)

lemma length_predicted_names:
  "length (predicted_names names predictions labels) = min (length predictions) (length labels)"
  by (simp add: predicted_names_def)

section \<open>The two decoders\<close>

text \<open>
  Claim C9. The filtering-and-naming comprehensions inside \<open>compute_metrics\<close> and the
  function \<open>postprocess\<close> compute the same pair \<open>(true_labels, true_predictions)\<close>
  from the same integer arrays and the same label-name table, including the case in
  which a name lookup fails.
\<close>

theorem decode_implementations_agree:
  "compute_metrics_decode label_names predictions labels =
     postprocess label_names predictions labels"
  by (simp add: compute_metrics_decode_def postprocess_def)

section \<open>Filtering and naming\<close>

text \<open>
  Claim C3. For two batches of the same shape whose surviving codes are valid ids of
  the label-name table, \<open>postprocess\<close> and the decoding step of \<open>compute_metrics\<close>
  return the same pair, with one sequence of names per row in each component. Row
  \<open>r\<close> of either component is read off the positions of row \<open>r\<close> whose gold label
  is not \<open>-100\<close>, in increasing order: the gold names there, and the predicted names
  there. So the two sequences of a row are equally long and no position with gold
  label \<open>-100\<close> contributes to either.
\<close>

theorem postprocess_filters_and_names:
  assumes "same_shape predictions labels"
    and "surviving_codes (valid_id label_names) predictions labels"
  shows "\<exists>true_labels true_predictions.
     postprocess label_names predictions labels = Inr (true_labels, true_predictions) \<and>
     compute_metrics_decode label_names predictions labels = Inr (true_labels, true_predictions) \<and>
     length true_labels = length labels \<and> length true_predictions = length labels \<and>
     (\<forall>r<length labels.
        true_labels ! r =
          map (\<lambda>i. label_names ! nat (labels ! r ! i))
            (filter (\<lambda>i. labels ! r ! i \<noteq> - 100) [0..<length (labels ! r)]) \<and>
        true_predictions ! r =
          map (\<lambda>i. label_names ! nat (predictions ! r ! i))
            (filter (\<lambda>i. labels ! r ! i \<noteq> - 100) [0..<length (labels ! r)]) \<and>
        length (true_labels ! r) = length (true_predictions ! r))"
proof -
  let ?tl = "gold_names label_names labels"
  let ?tp = "predicted_names label_names predictions labels"
  from assms(1) have rows: "length predictions = length labels"
    and cols: "\<forall>r<length labels. length (predictions ! r) = length (labels ! r)"
    by (simp_all add: same_shape_def list_all2_conv_all_nth)
  have post: "postprocess label_names predictions labels = Inr (?tl, ?tp)"
    by (rule postprocess_Inr) (rule surviving_codes_weaken [OF assms(2)])
  then have dec: "compute_metrics_decode label_names predictions labels = Inr (?tl, ?tp)"
    by (simp add: compute_metrics_decode_def postprocess_def)
  have row: "?tl ! r =
          map (\<lambda>i. label_names ! nat (labels ! r ! i))
            (filter (\<lambda>i. labels ! r ! i \<noteq> - 100) [0..<length (labels ! r)]) \<and>
        ?tp ! r =
          map (\<lambda>i. label_names ! nat (predictions ! r ! i))
            (filter (\<lambda>i. labels ! r ! i \<noteq> - 100) [0..<length (labels ! r)]) \<and>
        length (?tl ! r) = length (?tp ! r)" if r: "r < length labels" for r
  proof -
    from assms(2) r have g: "list_all (\<lambda>l. l = - 100 \<or> valid_id label_names l) (labels ! r)"
      by (simp add: surviving_codes_def list_all_length)
    from assms(2) r rows
    have p: "list_all (\<lambda>(p, l). l = - 100 \<or> valid_id label_names p) (zip (predictions ! r) (labels ! r))"
      by (simp add: surviving_codes_def list_all_length [of _ "zip predictions labels"])
    from r rows have r': "r < length predictions" by simp
    from cols r have c: "length (predictions ! r) = length (labels ! r)" by simp
    show ?thesis
      by (simp add: gold_names_row [OF r g] predicted_names_row [OF r r' c p])
  qed
  from post dec rows row show ?thesis
    by (intro exI [of _ ?tl] exI [of _ ?tp]) (simp add: length_gold_names length_predicted_names)
qed

theorem postprocess_filters_and_names_witness:
  "same_shape [[0, 3, 5, 0], [1, 2, 0, 0]] [[- 100, 3, 4, - 100], [- 100, 1, 2, - 100]] \<and>
   surviving_codes (valid_id conll_label_names)
     [[0, 3, 5, 0], [1, 2, 0, 0]] [[- 100, 3, 4, - 100], [- 100, 1, 2, - 100]] \<and>
   (\<exists>true_labels true_predictions.
      postprocess conll_label_names
        [[0, 3, 5, 0], [1, 2, 0, 0]] [[- 100, 3, 4, - 100], [- 100, 1, 2, - 100]] =
          Inr (true_labels, true_predictions) \<and>
      length true_labels = 2 \<and> length true_predictions = 2 \<and>
      length (true_labels ! 1) = length (true_predictions ! 1))"
proof -
  have h1: "same_shape [[0, 3, 5, 0], [1, 2, 0, 0]] [[- 100, 3, 4, - 100], [- 100, 1, 2, - 100]]"
    by (simp add: same_shape_def)
  have h2: "surviving_codes (valid_id conll_label_names)
     [[0, 3, 5, 0], [1, 2, 0, 0]] [[- 100, 3, 4, - 100], [- 100, 1, 2, - 100]]"
    by (simp add: surviving_codes_def valid_id_def conll_label_names_def)
  from postprocess_filters_and_names [OF h1 h2]
  have "\<exists>true_labels true_predictions.
      postprocess conll_label_names
        [[0, 3, 5, 0], [1, 2, 0, 0]] [[- 100, 3, 4, - 100], [- 100, 1, 2, - 100]] =
          Inr (true_labels, true_predictions) \<and>
      length true_labels = 2 \<and> length true_predictions = 2 \<and>
      length (true_labels ! 1) = length (true_predictions ! 1)"
    by fastforce
  with h1 h2 show ?thesis by blast
qed

lemma predicted_names_same_shape:
  assumes "list_all2 (\<lambda>prediction label. length prediction = length label) predictions labels"
  shows "map (\<lambda>(prediction, label). map (\<lambda>(p, l). f p) (zip prediction label)) (zip predictions labels) =
         map (map f) predictions"
  using assms
proof (induction predictions labels rule: list_all2_induct)
  case Nil
  then show ?case by simp
next
  case (Cons prediction predictions label labels)
  have "map (\<lambda>(p, l). f p) (zip prediction label) = map f (map fst (zip prediction label))"
    by (simp add: case_prod_unfold)
  also have "\<dots> = map f prediction"
    using Cons.hyps(1) by simp
  finally show ?case using Cons.IH by simp
qed

text \<open>
  Claim C8. For two batches of the same shape in which no gold label is \<open>-100\<close> and
  every code is a valid id of the label-name table, \<open>postprocess\<close> returns the rows
  of the input, in content and order, with each code replaced by its name and nothing
  dropped.
\<close>

theorem postprocess_without_ignored:
  assumes "same_shape predictions labels"
    and "list_all (list_all (\<lambda>l. l \<noteq> - 100)) labels"
    and "list_all (list_all (valid_id label_names)) labels"
    and "list_all (list_all (valid_id label_names)) predictions"
  shows "postprocess label_names predictions labels =
           Inr (map (map (\<lambda>c. label_names ! nat c)) labels,
                map (map (\<lambda>c. label_names ! nat c)) predictions)"
proof -
  have keep_gold: "filter (\<lambda>l. l \<noteq> - 100) label = label" if "label \<in> set labels" for label
    using assms(2) that by (auto simp: list_all_iff)
  have keep_pair: "filter (\<lambda>(p, l). l \<noteq> - 100) (zip prediction label) = zip prediction label"
    if "(prediction, label) \<in> set (zip predictions labels)" for prediction label
  proof -
    from that have "label \<in> set labels" by (rule set_zip_rightD)
    with assms(2) have "\<forall>l\<in>set label. l \<noteq> - 100" by (auto simp: list_all_iff)
    then show ?thesis by (auto simp: filter_id_conv dest: set_zip_rightD)
  qed
  have surv: "surviving_codes (accepted_subscript label_names) predictions labels"
    unfolding surviving_codes_def list_all_iff
    using assms(3,4)
    by (auto simp: list_all_iff dest!: set_zip_leftD intro: valid_id_accepted)
  have gold: "gold_names label_names labels = map (map (\<lambda>c. label_names ! nat c)) labels"
    unfolding gold_names_def
    using assms(3) by (intro map_cong refl) (auto simp: keep_gold list_all_iff name_at_valid)
  have "predicted_names label_names predictions labels =
          map (\<lambda>(prediction, label). map (\<lambda>(p, l). name_at label_names p) (zip prediction label))
            (zip predictions labels)"
    unfolding predicted_names_def
    by (intro map_cong refl) (auto simp: keep_pair)
  also have "\<dots> = map (map (name_at label_names)) predictions"
    using assms(1) unfolding same_shape_def by (rule predicted_names_same_shape)
  also have "\<dots> = map (map (\<lambda>c. label_names ! nat c)) predictions"
    using assms(4) by (intro map_cong refl) (auto simp: list_all_iff name_at_valid)
  finally have pred: "predicted_names label_names predictions labels =
      map (map (\<lambda>c. label_names ! nat c)) predictions" .
  from postprocess_Inr [OF surv] gold pred show ?thesis by simp
qed

theorem postprocess_without_ignored_witness:
  "same_shape [[0, 3, 5], [1, 2, 0]] [[7, 3, 4], [0, 1, 2]] \<and>
   list_all (list_all (\<lambda>l. l \<noteq> - 100)) [[7, 3, 4], [0, 1, 2 :: int]] \<and>
   list_all (list_all (valid_id conll_label_names)) [[7, 3, 4], [0, 1, 2]] \<and>
   list_all (list_all (valid_id conll_label_names)) [[0, 3, 5], [1, 2, 0]] \<and>
   postprocess conll_label_names [[0, 3, 5], [1, 2, 0]] [[7, 3, 4], [0, 1, 2]] =
     Inr ([[''B-MISC'', ''B-ORG'', ''I-ORG''], [''O'', ''B-PER'', ''I-PER'']],
          [[''O'', ''B-ORG'', ''B-LOC''], [''B-PER'', ''I-PER'', ''O'']])"
proof -
  have h1: "same_shape [[0, 3, 5], [1, 2, 0]] [[7, 3, 4], [0, 1, 2]]"
    by (simp add: same_shape_def)
  have h2: "list_all (list_all (\<lambda>l. l \<noteq> - 100)) [[7, 3, 4], [0, 1, 2 :: int]]"
    by simp
  have h3: "list_all (list_all (valid_id conll_label_names)) [[7, 3, 4], [0, 1, 2]]"
    and h4: "list_all (list_all (valid_id conll_label_names)) [[0, 3, 5], [1, 2, 0]]"
    by (simp_all add: valid_id_def conll_label_names_def)
  from postprocess_without_ignored [OF h1 h2 h3 h4]
  have "postprocess conll_label_names [[0, 3, 5], [1, 2, 0]] [[7, 3, 4], [0, 1, 2]] =
     Inr ([[''B-MISC'', ''B-ORG'', ''I-ORG''], [''O'', ''B-PER'', ''I-PER'']],
          [[''O'', ''B-ORG'', ''B-LOC''], [''B-PER'', ''I-PER'', ''O'']])"
    by (simp add: conll_label_names_def eval_nat_numeral)
  with h1 h2 h3 h4 show ?thesis by blast
qed

section \<open>Mismatched shapes\<close>

text \<open>
  Claim C5 says that \<open>postprocess\<close> signals mismatched shapes fatally. It does not:
  with rows of different lengths, and with different numbers of rows, it returns a
  result.
\<close>

theorem postprocess_accepts_mismatched_shapes:
  "\<not> same_shape [[0, 1, 2], [0, 0, 0]] [[0, 1], [3, 4]] \<and>
   postprocess conll_label_names [[0, 1, 2], [0, 0, 0]] [[0, 1], [3, 4]] =
     Inr ([[''O'', ''B-PER''], [''B-ORG'', ''I-ORG'']], [[''O'', ''B-PER''], [''O'', ''O'']]) \<and>
   \<not> same_shape [[0, 1], [2, 3], [4, 5]] [[0, 1], [3, 4]] \<and>
   postprocess conll_label_names [[0, 1], [2, 3], [4, 5]] [[0, 1], [3, 4]] =
     Inr ([[''O'', ''B-PER''], [''B-ORG'', ''I-ORG'']], [[''O'', ''B-PER''], [''I-PER'', ''B-ORG'']])"
  by (simp add: same_shape_def postprocess_def list_getitem_def conll_label_names_def)

text \<open>
  Claim C5, amended. When the predictions batch and the labels batch have mismatched
  shapes, \<open>postprocess\<close> signals nothing: provided the surviving codes are valid ids,
  it returns a result. \<open>true_labels\<close> has one row for every row of \<open>labels\<close>, made
  from the whole gold row; \<open>true_predictions\<close> has only as many rows as the shorter
  batch, each made from the positions that \<open>zip\<close> pairs, that is up to the shorter of
  the two rows.
\<close>

theorem postprocess_mismatch_truncates:
  assumes "\<not> same_shape predictions labels"
    and "surviving_codes (valid_id label_names) predictions labels"
  shows "\<exists>true_labels true_predictions.
     postprocess label_names predictions labels = Inr (true_labels, true_predictions) \<and>
     length true_labels = length labels \<and>
     length true_predictions = min (length predictions) (length labels) \<and>
     (\<forall>r<length labels.
        true_labels ! r =
          map (\<lambda>l. label_names ! nat l) (filter (\<lambda>l. l \<noteq> - 100) (labels ! r))) \<and>
     (\<forall>r<min (length predictions) (length labels).
        true_predictions ! r =
          map (\<lambda>(p, l). label_names ! nat p)
            (filter (\<lambda>(p, l). l \<noteq> - 100) (zip (predictions ! r) (labels ! r))))"
proof -
  let ?tl = "gold_names label_names labels"
  let ?tp = "predicted_names label_names predictions labels"
  have post: "postprocess label_names predictions labels = Inr (?tl, ?tp)"
    by (rule postprocess_Inr) (rule surviving_codes_weaken [OF assms(2)])
  have gold: "?tl ! r = map (\<lambda>l. label_names ! nat l) (filter (\<lambda>l. l \<noteq> - 100) (labels ! r))"
    if r: "r < length labels" for r
  proof -
    from assms(2) r have "list_all (\<lambda>l. l = - 100 \<or> valid_id label_names l) (labels ! r)"
      by (simp add: surviving_codes_def list_all_length)
    then have "map (name_at label_names) (filter (\<lambda>l. l \<noteq> - 100) (labels ! r)) =
               map (\<lambda>l. label_names ! nat l) (filter (\<lambda>l. l \<noteq> - 100) (labels ! r))"
      by (intro map_cong refl) (auto simp: list_all_iff name_at_valid)
    with r show ?thesis by (simp add: gold_names_def)
  qed
  have pred: "?tp ! r = map (\<lambda>(p, l). label_names ! nat p)
            (filter (\<lambda>(p, l). l \<noteq> - 100) (zip (predictions ! r) (labels ! r)))"
    if r: "r < min (length predictions) (length labels)" for r
  proof -
    from assms(2) r
    have "list_all (\<lambda>(p, l). l = - 100 \<or> valid_id label_names p) (zip (predictions ! r) (labels ! r))"
      by (simp add: surviving_codes_def list_all_length [of _ "zip predictions labels"])
    then have "map (\<lambda>(p, l). name_at label_names p)
                 (filter (\<lambda>(p, l). l \<noteq> - 100) (zip (predictions ! r) (labels ! r))) =
               map (\<lambda>(p, l). label_names ! nat p)
                 (filter (\<lambda>(p, l). l \<noteq> - 100) (zip (predictions ! r) (labels ! r)))"
      by (intro map_cong refl) (auto simp: list_all_iff name_at_valid)
    with r show ?thesis by (simp add: predicted_names_def)
  qed
  from post gold pred show ?thesis
    by (intro exI [of _ ?tl] exI [of _ ?tp]) (simp add: length_gold_names length_predicted_names)
qed

theorem postprocess_mismatch_truncates_witness:
  "\<not> same_shape [[0, 1, 2], [0, 0, 0]] [[0, 1], [3, 4]] \<and>
   surviving_codes (valid_id conll_label_names) [[0, 1, 2], [0, 0, 0]] [[0, 1], [3, 4]] \<and>
   (\<exists>true_labels true_predictions.
      postprocess conll_label_names [[0, 1, 2], [0, 0, 0]] [[0, 1], [3, 4]] =
        Inr (true_labels, true_predictions) \<and>
      length true_labels = 2 \<and> length true_predictions = 2 \<and>
      true_predictions ! 0 = [''O'', ''B-PER''])"
proof -
  have h1: "\<not> same_shape [[0, 1, 2], [0, 0, 0]] [[0, 1], [3, 4]]"
    by (simp add: same_shape_def)
  have h2: "surviving_codes (valid_id conll_label_names) [[0, 1, 2], [0, 0, 0]] [[0, 1], [3, 4]]"
    by (simp add: surviving_codes_def valid_id_def conll_label_names_def)
  from postprocess_mismatch_truncates [OF h1 h2]
  obtain true_labels true_predictions where
    ret: "postprocess conll_label_names [[0, 1, 2], [0, 0, 0]] [[0, 1], [3, 4]] =
        Inr (true_labels, true_predictions)" and
    l1: "length true_labels = length [[0, 1], [3, 4 :: int]]" and
    l2: "length true_predictions = min (length [[0, 1, 2], [0, 0, 0 :: int]]) (length [[0, 1], [3, 4 :: int]])" and
    row: "\<forall>r<min (length [[0, 1, 2], [0, 0, 0 :: int]]) (length [[0, 1], [3, 4 :: int]]).
        true_predictions ! r =
          map (\<lambda>(p, l). conll_label_names ! nat p)
            (filter (\<lambda>(p, l). l \<noteq> - 100) (zip ([[0, 1, 2], [0, 0, 0]] ! r) ([[0, 1], [3, 4 :: int]] ! r)))"
    by blast
  from row [rule_format, of 0] have "true_predictions ! 0 = [''O'', ''B-PER'']"
    by (simp add: conll_label_names_def)
  with ret l1 l2 h1 h2 show ?thesis by auto
qed

section \<open>Codes outside the label-name table\<close>

text \<open>
  Claim C7 says that every surviving code that is not a valid id makes post-processing
  fail, negative codes included. The code \<open>-1\<close> is not a valid id, survives the
  filtering, and is named by the last entry of the table.
\<close>

theorem postprocess_names_negative_code:
  "\<not> valid_id conll_label_names (- 1) \<and> (- 1 :: int) \<noteq> - 100 \<and>
   postprocess conll_label_names [[0]] [[- 1]] = Inr ([[''I-MISC'']], [[''O'']]) \<and>
   compute_metrics_decode conll_label_names [[0]] [[- 1]] = Inr ([[''I-MISC'']], [[''O'']])"
  by (simp add: valid_id_def postprocess_def compute_metrics_decode_def list_getitem_def
      conll_label_names_def)

text \<open>
  Claim C7, amended. \<open>postprocess\<close> and the decoding step of \<open>compute_metrics\<close> fail,
  with \<open>IndexError\<close>, exactly when some surviving code \<open>c\<close> is not accepted by
  Python as a subscript of the label-name table: \<open>c \<ge> len(label_names)\<close> or
  \<open>c < -len(label_names)\<close>. A surviving negative code in
  \<open>-len(label_names) .. -1\<close> is not rejected.
\<close>

theorem postprocess_fails_iff:
  "(postprocess label_names predictions labels = Inl IndexError \<longleftrightarrow>
      \<not> surviving_codes (accepted_subscript label_names) predictions labels) \<and>
   (compute_metrics_decode label_names predictions labels = Inl IndexError \<longleftrightarrow>
      \<not> surviving_codes (accepted_subscript label_names) predictions labels)"
proof -
  have "postprocess label_names predictions labels = Inl IndexError \<longleftrightarrow>
      \<not> surviving_codes (accepted_subscript label_names) predictions labels"
    using postprocess_Inr [of label_names predictions labels]
      postprocess_Inl [of label_names predictions labels]
    by auto
  moreover have "compute_metrics_decode label_names predictions labels =
      postprocess label_names predictions labels"
    by (simp add: compute_metrics_decode_def postprocess_def)
  ultimately show ?thesis by simp
qed

theorem postprocess_fails_iff_witness:
  "\<not> surviving_codes (accepted_subscript conll_label_names) [[0, 1]] [[2, 9]] \<and>
   postprocess conll_label_names [[0, 1]] [[2, 9]] = Inl IndexError \<and>
   compute_metrics_decode conll_label_names [[0, 1]] [[2, 9]] = Inl IndexError \<and>
   \<not> surviving_codes (accepted_subscript conll_label_names) [[0, - 10]] [[2, 3]] \<and>
   postprocess conll_label_names [[0, - 10]] [[2, 3]] = Inl IndexError \<and>
   surviving_codes (accepted_subscript conll_label_names) [[0, - 10]] [[2, - 100]] \<and>
   postprocess conll_label_names [[0, - 10]] [[2, - 100]] \<noteq> Inl IndexError"
proof -
  have a: "\<not> surviving_codes (accepted_subscript conll_label_names) [[0, 1]] [[2, 9]]"
    and b: "\<not> surviving_codes (accepted_subscript conll_label_names) [[0, - 10]] [[2, 3]]"
    and c: "surviving_codes (accepted_subscript conll_label_names) [[0, - 10]] [[2, - 100]]"
    by (simp_all add: surviving_codes_def accepted_subscript_def conll_label_names_def)
  from a postprocess_fails_iff [of conll_label_names "[[0, 1]]" "[[2, 9]]"]
  have a': "postprocess conll_label_names [[0, 1]] [[2, 9]] = Inl IndexError"
    "compute_metrics_decode conll_label_names [[0, 1]] [[2, 9]] = Inl IndexError"
    by simp_all
  from b postprocess_fails_iff [of conll_label_names "[[0, - 10]]" "[[2, 3]]"]
  have b': "postprocess conll_label_names [[0, - 10]] [[2, 3]] = Inl IndexError"
    by simp
  from c postprocess_fails_iff [of conll_label_names "[[0, - 10]]" "[[2, - 100]]"]
  have c': "postprocess conll_label_names [[0, - 10]] [[2, - 100]] \<noteq> Inl IndexError"
    by simp
  from a a' b b' c c' show ?thesis by blast
qed

end
